theory Spec2Isabelle
  imports Complex_Main "HOL-Library.Multiset" "HOL-Library.Sublist"
begin

section \<open>The strategy planner of strategy.py\<close>

text \<open>
  The planner \<open>compute_strategy\<close> walks greedily from the start position to the nearest
  remaining artifact while the match clock allows it. Python's numbers, ints and floats, are
  modelled as real numbers: every sum, quotient and square root below is exact, and the
  rounding of IEEE arithmetic, with its infinities, is outside this model. Points are pairs
  of reals.
\<close>

type_synonym point = "real \<times> real"

text \<open>\<open>euclid(a, b) = math.hypot(a[0]-b[0], a[1]-b[1])\<close>\<close>

definition euclid :: "point \<Rightarrow> point \<Rightarrow> real" where
  "euclid a b = sqrt ((fst a - fst b)\<^sup>2 + (snd a - snd b)\<^sup>2)"

text \<open>
  The parameter dictionary. Each key may be absent (\<open>None\<close>); \<open>params.get(key, default)\<close>
  then yields the default of the source.
\<close>

record params =
  robot_speed :: "real option"
  pickup_time :: "real option"
  match_time :: "real option"
  auton_time :: "real option"
  points_per_artifact :: "real option"
  decode_zone :: "(point \<times> real) option"
  decode_bonus :: "real option"
  auton_multiplier :: "real option"

definition get :: "'a option \<Rightarrow> 'a \<Rightarrow> 'a" where
  "get entry dflt = (case entry of None \<Rightarrow> dflt | Some v \<Rightarrow> v)"

text \<open>One dictionary of the list \<open>visited\<close>; the key \<open>pickup_time\<close> is the field \<open>pickup_time_v\<close>.\<close>

record visit =
  pos :: point
  travel_time :: real
  pickup_time_v :: real
  time_at_pickup :: real
  in_auton :: bool
  base_points :: real
  bonus_points :: real
  gained :: real

text \<open>The dictionary that \<open>compute_strategy\<close> returns; the key \<open>params\<close> is the field \<open>params_r\<close>.\<close>

record plan =
  visited :: "visit list"
  expected_score :: real
  used_time :: real
  remaining_artifacts :: nat
  params_r :: params

text \<open>
  The two errors that the planner's arithmetic raises. Dividing by a speed of zero raises
  \<open>ZeroDivisionError\<close>. A finite float is less than \<open>2 ^ 1024 - 2 ^ 970\<close> in magnitude, so a
  number at or beyond that is a Python int, and \<open>OverflowError\<close> is raised where the code
  needs it as a float.
\<close>

datatype error = ZeroDivisionError | OverflowError

definition too_large :: "real \<Rightarrow> bool" where
  "too_large x \<longleftrightarrow> 2 ^ 1024 - 2 ^ 970 \<le> \<bar>x\<bar>"

text \<open>
  Line 9 raises when a difference of coordinates handed to \<open>math.hypot\<close> is too large.
\<close>

definition euclid_raises :: "point \<Rightarrow> point \<Rightarrow> bool" where
  "euclid_raises a b \<longleftrightarrow> too_large (fst a - fst b) \<or> too_large (snd a - snd b)"

text \<open>
  Lines 46 to 48: the list of (distance, artifact) pairs, sorted by distance with a stable
  sort, and its first entry. It is only evaluated on a non-empty list.
\<close>

definition nearest :: "point \<Rightarrow> point list \<Rightarrow> real \<times> point" where
  "nearest p artifacts =
     (let dlist = map (\<lambda>a. (euclid p a, a)) artifacts;
          dlist = sort_key fst dlist
      in hd dlist)"

lemma nearest_eq:
  "nearest p artifacts = hd (sort_key fst (map (\<lambda>a. (euclid p a, a)) artifacts))"
  by (simp add: nearest_def)

lemma hd_sort_key_in_set: "xs \<noteq> [] \<Longrightarrow> hd (sort_key f xs) \<in> set xs"
proof -
  assume "xs \<noteq> []"
  then have "sort_key f xs \<noteq> []" by (metis length_sort length_0_conv)
  then have "hd (sort_key f xs) \<in> set (sort_key f xs)" by (rule hd_in_set)
  then show ?thesis by simp
qed

lemma nearest_in_set:
  assumes "artifacts \<noteq> []"
  shows "snd (nearest p artifacts) \<in> set artifacts"
proof -
  have "nearest p artifacts \<in> set (map (\<lambda>a. (euclid p a, a)) artifacts)"
    unfolding nearest_eq using assms by (intro hd_sort_key_in_set) simp
  then show ?thesis by auto
qed

lemma nearest_dist:
  assumes "artifacts \<noteq> []"
  shows "fst (nearest p artifacts) = euclid p (snd (nearest p artifacts))"
proof -
  have "nearest p artifacts \<in> set (map (\<lambda>a. (euclid p a, a)) artifacts)"
    unfolding nearest_eq using assms by (intro hd_sort_key_in_set) simp
  then show ?thesis by auto
qed

lemma length_remove_nearest [termination_simp]:
  "artifacts \<noteq> [] \<Longrightarrow> (d, target) = nearest p artifacts \<Longrightarrow>
     length (remove1 target artifacts) < length artifacts"
  using nearest_in_set [of artifacts p]
  by (metis length_pos_if_in_set length_remove1 diff_less snd_conv zero_less_one)

text \<open>
  The loop of lines 44 to 88 on the variables \<open>t\<close>, \<open>pos\<close>, \<open>visited\<close>, \<open>score\<close> and
  \<open>artifacts\<close>; it returns their final values, or the error that an iteration raises. The
  distances of line 46 convert the differences of coordinates, the division of line 49 the
  speed, the sum of line 50 the pickup time, the distance of line 67 the differences to the
  centre of the zone, and the sum \<open>base + bonus\<close> is converted by the float multiplier of
  line 72 or by the float score of line 74; in the autonomous window a multiplier that is
  too large is converted at line 72 or makes a product that line 74 converts. The
  comparisons of lines 52, 58 and 67 convert nothing.
\<close>

function greedy_loop ::
  "params \<Rightarrow> real \<Rightarrow> point \<Rightarrow> visit list \<Rightarrow> real \<Rightarrow> point list
     \<Rightarrow> error + (real \<times> visit list \<times> real \<times> point list)" where
  "greedy_loop p t cur vs score artifacts =
     (let speed = get (robot_speed p) 100;
          pickup = get (pickup_time p) 3;
          total_time = get (match_time p) 150;
          auton = get (auton_time p) 30;
          per_artifact = get (points_per_artifact p) 5;
          zone = get (decode_zone p) ((450, 100), 80);
          dbonus = get (decode_bonus p) 3;
          multiplier = get (auton_multiplier p) 1.5
      in if artifacts = [] then Inr (t, vs, score, artifacts)
         else if \<exists>a\<in>set artifacts. euclid_raises cur a then Inl OverflowError
         else
           let (d, target) = nearest cur artifacts
           in if too_large speed then Inl OverflowError
              else if speed = 0 then Inl ZeroDivisionError
              else if too_large pickup then Inl OverflowError
              else
                let travel = d / speed;
                    time_needed = travel + pickup
                in if t + time_needed > total_time then Inr (t, vs, score, artifacts)
                   else
                     let t1 = t + travel;
                         in_auton = (t1 \<le> auton);
                         t2 = t1 + pickup;
                         base = per_artifact;
                         bonus = 0;
                         (center, radius) = zone
                     in if euclid_raises target center then Inl OverflowError
                        else
                          let bonus = (if euclid target center \<le> radius then bonus + dbonus
                                       else bonus);
                              gained = base + bonus
                          in if too_large gained \<or> (in_auton \<and> too_large multiplier)
                             then Inl OverflowError
                             else
                               let gained = (if in_auton then gained * multiplier else gained);
                                   score = score + gained;
                                   vs = vs @ [\<lparr>pos = target, travel_time = travel,
                                               pickup_time_v = pickup, time_at_pickup = t2,
                                               in_auton = in_auton, base_points = base,
                                               bonus_points = bonus, gained = gained\<rparr>]
                               in greedy_loop p t2 target vs score (remove1 target artifacts))"
  by pat_completeness auto
termination
  by (relation "measure (\<lambda>(p, t, cur, vs, score, artifacts). length artifacts)")
     (auto simp: length_remove_nearest)

text \<open>\<open>compute_strategy\<close>: the loop from time 0 at the start, and the returned dictionary.\<close>

definition compute_strategy :: "point \<Rightarrow> point list \<Rightarrow> params \<Rightarrow> error + plan" where
  "compute_strategy start artifact_positions p =
     (case greedy_loop p 0 start [] 0 artifact_positions of
        Inl e \<Rightarrow> Inl e
      | Inr (t, vs, score, artifacts) \<Rightarrow>
          Inr \<lparr>visited = vs, expected_score = score, used_time = t,
               remaining_artifacts = length artifacts, params_r = p\<rparr>)"

declare greedy_loop.simps [simp del]

section \<open>The loop seen from the returned plan\<close>

text \<open>
  The dictionary that one iteration appends when it starts at time \<open>t\<close> in position \<open>cur\<close>
  with the working list \<open>artifacts\<close>, and the test of line 52 that lets the iteration run.
\<close>

definition visit_at :: "params \<Rightarrow> real \<Rightarrow> point \<Rightarrow> point list \<Rightarrow> visit" where
  "visit_at p t cur artifacts =
     (let target = snd (nearest cur artifacts);
          travel = fst (nearest cur artifacts) / get (robot_speed p) 100;
          pickup = get (pickup_time p) 3;
          zone = get (decode_zone p) ((450, 100), 80);
          bonus = (if euclid target (fst zone) \<le> snd zone then get (decode_bonus p) 3 else 0);
          base = get (points_per_artifact p) 5;
          early = (t + travel \<le> get (auton_time p) 30)
      in \<lparr>pos = target, travel_time = travel, pickup_time_v = pickup,
          time_at_pickup = t + travel + pickup, in_auton = early, base_points = base,
          bonus_points = bonus,
          gained = (if early then (base + bonus) * get (auton_multiplier p) 1.5 else base + bonus)\<rparr>)"

definition fits :: "params \<Rightarrow> real \<Rightarrow> point \<Rightarrow> point list \<Rightarrow> bool" where
  "fits p t cur artifacts =
     (\<not> t + (fst (nearest cur artifacts) / get (robot_speed p) 100 + get (pickup_time p) 3)
          > get (match_time p) 150)"

text \<open>
  The error that an iteration raises before the test of line 52, if any, and whether it
  raises after the test, while it scores the target.
\<close>

definition blocked :: "params \<Rightarrow> point \<Rightarrow> point list \<Rightarrow> error option" where
  "blocked p cur artifacts =
     (if \<exists>a\<in>set artifacts. euclid_raises cur a then Some OverflowError
      else if too_large (get (robot_speed p) 100) then Some OverflowError
      else if get (robot_speed p) 100 = 0 then Some ZeroDivisionError
      else if too_large (get (pickup_time p) 3) then Some OverflowError
      else None)"

definition scoring_raises :: "params \<Rightarrow> visit \<Rightarrow> bool" where
  "scoring_raises p v \<longleftrightarrow>
     euclid_raises (pos v) (fst (get (decode_zone p) ((450, 100), 80)))
     \<or> too_large (base_points v + bonus_points v)
     \<or> (in_auton v \<and> too_large (get (auton_multiplier p) 1.5))"

text \<open>
  A list of visits is the trace of the loop from a state when each visit is the one the loop
  appends in the state the previous visit left, no iteration raises, and the loop stops
  after the last one.
\<close>

fun trace :: "params \<Rightarrow> real \<Rightarrow> point \<Rightarrow> point list \<Rightarrow> visit list \<Rightarrow> bool" where
  "trace p t cur artifacts [] =
     (artifacts = [] \<or> (blocked p cur artifacts = None \<and> \<not> fits p t cur artifacts))"
| "trace p t cur artifacts (v # ws) =
     (artifacts \<noteq> [] \<and> blocked p cur artifacts = None \<and> fits p t cur artifacts \<and>
      v = visit_at p t cur artifacts \<and> \<not> scoring_raises p v \<and>
      trace p (time_at_pickup v) (pos v) (remove1 (pos v) artifacts) ws)"

text \<open>
  The state in which iteration \<open>i\<close> starts, read off the list of visits: the clock is the time
  recorded by the previous visit, the position is the previous target, and the working list
  is the input without the targets already visited.
\<close>

definition elapsed_before :: "real \<Rightarrow> visit list \<Rightarrow> nat \<Rightarrow> real" where
  "elapsed_before t0 ws i = (if i = 0 then t0 else time_at_pickup (ws ! (i - 1)))"

definition position_before :: "point \<Rightarrow> visit list \<Rightarrow> nat \<Rightarrow> point" where
  "position_before start ws i = (if i = 0 then start else pos (ws ! (i - 1)))"

definition remaining_before :: "point list \<Rightarrow> visit list \<Rightarrow> nat \<Rightarrow> point list" where
  "remaining_before artifacts ws i = foldl (\<lambda>l v. remove1 (pos v) l) artifacts (take i ws)"

text \<open>
  Inputs whose numbers are far inside the range of a double: every coordinate and every
  parameter is at most \<open>2 ^ 500\<close> in magnitude.
\<close>

definition moderate :: "real \<Rightarrow> bool" where
  "moderate x \<longleftrightarrow> \<bar>x\<bar> \<le> 2 ^ 500"

definition moderate_input :: "point \<Rightarrow> point list \<Rightarrow> params \<Rightarrow> bool" where
  "moderate_input start artifacts p \<longleftrightarrow>
     list_all (\<lambda>a. moderate (fst a) \<and> moderate (snd a)) (start # artifacts)
     \<and> moderate (get (robot_speed p) 100)
     \<and> moderate (get (pickup_time p) 3)
     \<and> moderate (get (match_time p) 150)
     \<and> moderate (get (auton_time p) 30)
     \<and> moderate (get (points_per_artifact p) 5)
     \<and> moderate (fst (fst (get (decode_zone p) ((450, 100), 80))))
     \<and> moderate (snd (fst (get (decode_zone p) ((450, 100), 80))))
     \<and> moderate (snd (get (decode_zone p) ((450, 100), 80)))
     \<and> moderate (get (decode_bonus p) 3)
     \<and> moderate (get (auton_multiplier p) 1.5)"

text \<open>
  Example inputs, with the plans they yield: three targets on the vertical axis through the
  start, the first two at the same distance, the third out of reach; two targets on the
  start itself with a pickup time of zero; and a parameter set with a negative speed, a
  negative pickup time, a negative match time and an autonomous window beyond the match.
\<close>

definition scenario_params :: params where
  "scenario_params =
     \<lparr>robot_speed = Some 10, pickup_time = Some 3, match_time = Some 100, auton_time = Some 1,
      points_per_artifact = Some 5, decode_zone = Some ((0, 20), 10), decode_bonus = Some 3,
      auton_multiplier = Some 2\<rparr>"

definition scenario_targets :: "point list" where
  "scenario_targets = [(0, 10), (0, -10), (0, 2000)]"

definition scenario_plan :: plan where
  "scenario_plan =
     \<lparr>visited =
        [\<lparr>pos = (0, 10), travel_time = 1, pickup_time_v = 3, time_at_pickup = 4,
          in_auton = True, base_points = 5, bonus_points = 3, gained = 16\<rparr>,
         \<lparr>pos = (0, -10), travel_time = 2, pickup_time_v = 3, time_at_pickup = 9,
          in_auton = False, base_points = 5, bonus_points = 0, gained = 5\<rparr>],
      expected_score = 21, used_time = 9, remaining_artifacts = 1,
      params_r = scenario_params\<rparr>"

definition coincident_plan :: plan where
  "coincident_plan =
     \<lparr>visited =
        [\<lparr>pos = (0, 0), travel_time = 0, pickup_time_v = 0, time_at_pickup = 0,
          in_auton = True, base_points = 5, bonus_points = 0, gained = 10\<rparr>,
         \<lparr>pos = (0, 0), travel_time = 0, pickup_time_v = 0, time_at_pickup = 0,
          in_auton = True, base_points = 5, bonus_points = 0, gained = 10\<rparr>],
      expected_score = 20, used_time = 0, remaining_artifacts = 0,
      params_r = scenario_params\<lparr>pickup_time := Some 0\<rparr>\<rparr>"

definition invalid_params :: params where
  "invalid_params =
     \<lparr>robot_speed = Some (- 10), pickup_time = Some (- 1), match_time = Some (- 1),
      auton_time = Some 1, points_per_artifact = Some 5, decode_zone = Some ((0, 20), 10),
      decode_bonus = Some 3, auton_multiplier = Some 2\<rparr>"

definition invalid_plan :: plan where
  "invalid_plan =
     \<lparr>visited =
        [\<lparr>pos = (0, 10), travel_time = - 1, pickup_time_v = - 1, time_at_pickup = - 2,
          in_auton = True, base_points = 5, bonus_points = 3, gained = 16\<rparr>,
         \<lparr>pos = (0, -10), travel_time = - 2, pickup_time_v = - 1, time_at_pickup = - 5,
          in_auton = True, base_points = 5, bonus_points = 0, gained = 10\<rparr>,
         \<lparr>pos = (0, 2000), travel_time = - 201, pickup_time_v = - 1, time_at_pickup = - 207,
          in_auton = True, base_points = 5, bonus_points = 0, gained = 10\<rparr>],
      expected_score = 36, used_time = - 207, remaining_artifacts = 0,
      params_r = invalid_params\<rparr>"

section \<open>Unfolding the loop\<close>

lemma visit_at_simps:
  "pos (visit_at p t cur artifacts) = snd (nearest cur artifacts)"
  "travel_time (visit_at p t cur artifacts) = fst (nearest cur artifacts) / get (robot_speed p) 100"
  "pickup_time_v (visit_at p t cur artifacts) = get (pickup_time p) 3"
  "time_at_pickup (visit_at p t cur artifacts) =
     t + fst (nearest cur artifacts) / get (robot_speed p) 100 + get (pickup_time p) 3"
  "in_auton (visit_at p t cur artifacts) =
     (t + fst (nearest cur artifacts) / get (robot_speed p) 100 \<le> get (auton_time p) 30)"
  "base_points (visit_at p t cur artifacts) = get (points_per_artifact p) 5"
  "bonus_points (visit_at p t cur artifacts) =
     (if euclid (snd (nearest cur artifacts)) (fst (get (decode_zone p) ((450, 100), 80)))
           \<le> snd (get (decode_zone p) ((450, 100), 80))
      then get (decode_bonus p) 3 else 0)"
  by (simp_all add: visit_at_def Let_def)

lemma gained_visit_at:
  "gained (visit_at p t cur artifacts) =
     (if in_auton (visit_at p t cur artifacts)
      then (base_points (visit_at p t cur artifacts) + bonus_points (visit_at p t cur artifacts))
             * get (auton_multiplier p) 1.5
      else base_points (visit_at p t cur artifacts) + bonus_points (visit_at p t cur artifacts))"
  by (simp add: visit_at_def Let_def)

lemma loop_empty: "greedy_loop p t cur vs score [] = Inr (t, vs, score, [])"
  by (subst greedy_loop.simps) simp

lemma loop_blocked:
  "artifacts \<noteq> [] \<Longrightarrow> blocked p cur artifacts = Some e \<Longrightarrow>
     greedy_loop p t cur vs score artifacts = Inl e"
  by (subst greedy_loop.simps)
    (auto simp add: Let_def case_prod_beta blocked_def split: if_splits)

lemma loop_stop:
  "artifacts \<noteq> [] \<Longrightarrow> blocked p cur artifacts = None \<Longrightarrow> \<not> fits p t cur artifacts \<Longrightarrow>
     greedy_loop p t cur vs score artifacts = Inr (t, vs, score, artifacts)"
  by (subst greedy_loop.simps)
    (auto simp add: Let_def case_prod_beta blocked_def fits_def split: if_splits)

lemma loop_scoring_raises:
  "artifacts \<noteq> [] \<Longrightarrow> blocked p cur artifacts = None \<Longrightarrow> fits p t cur artifacts \<Longrightarrow>
     scoring_raises p (visit_at p t cur artifacts) \<Longrightarrow>
     greedy_loop p t cur vs score artifacts = Inl OverflowError"
  by (subst greedy_loop.simps)
    (auto simp add: Let_def case_prod_beta blocked_def fits_def scoring_raises_def
       visit_at_simps split: if_splits)

lemma loop_go:
  "artifacts \<noteq> [] \<Longrightarrow> blocked p cur artifacts = None \<Longrightarrow> fits p t cur artifacts \<Longrightarrow>
     \<not> scoring_raises p (visit_at p t cur artifacts) \<Longrightarrow>
     greedy_loop p t cur vs score artifacts =
       greedy_loop p (time_at_pickup (visit_at p t cur artifacts)) (pos (visit_at p t cur artifacts))
         (vs @ [visit_at p t cur artifacts]) (score + gained (visit_at p t cur artifacts))
         (remove1 (pos (visit_at p t cur artifacts)) artifacts)"
  by (subst greedy_loop.simps)
    (auto simp add: Let_def case_prod_beta blocked_def fits_def scoring_raises_def
       visit_at_simps visit_at_def split: if_splits)

lemma loop_result:
  assumes "greedy_loop p t cur vs score artifacts = Inr x"
  shows "\<exists>ws. x = (elapsed_before t ws (length ws), vs @ ws, score + sum_list (map gained ws),
                   remaining_before artifacts ws (length ws))
          \<and> trace p t cur artifacts ws"
  using assms
proof (induction artifacts arbitrary: t cur vs score rule: length_induct)
  case (1 artifacts)
  note run = \<open>greedy_loop p t cur vs score artifacts = Inr x\<close>
  show ?case
  proof (cases "artifacts = []")
    case True
    with run have "x = (elapsed_before t [] (length []), vs @ [], score + sum_list (map gained []),
             remaining_before artifacts [] (length []))
      \<and> trace p t cur artifacts []"
      by (simp add: loop_empty elapsed_before_def remaining_before_def)
    then show ?thesis by blast
  next
    case False
    have free: "blocked p cur artifacts = None"
    proof (cases "blocked p cur artifacts")
      case None
      then show ?thesis .
    next
      case (Some e)
      with False run show ?thesis by (simp add: loop_blocked)
    qed
    show ?thesis
    proof (cases "fits p t cur artifacts")
      case nofit: False
      with False free run have "x = (elapsed_before t [] (length []), vs @ [],
             score + sum_list (map gained []), remaining_before artifacts [] (length []))
        \<and> trace p t cur artifacts []"
        by (simp add: loop_stop elapsed_before_def remaining_before_def)
      then show ?thesis by blast
    next
      case True
      define v where "v = visit_at p t cur artifacts"
      have quiet: "\<not> scoring_raises p v"
      proof
        assume "scoring_raises p v"
        with False free True run show False
          by (simp add: v_def loop_scoring_raises)
      qed
      have "pos v \<in> set artifacts"
        using False by (simp add: v_def visit_at_simps nearest_in_set)
      then have shorter: "length (remove1 (pos v) artifacts) < length artifacts"
        by (metis length_pos_if_in_set length_remove1 diff_less zero_less_one)
      have "greedy_loop p (time_at_pickup v) (pos v) (vs @ [v]) (score + gained v)
             (remove1 (pos v) artifacts) = Inr x"
        using loop_go [OF False free True, of vs score] quiet run by (simp add: v_def)
      with 1 shorter obtain ws where ws:
        "x = (elapsed_before (time_at_pickup v) ws (length ws), (vs @ [v]) @ ws,
                (score + gained v) + sum_list (map gained ws),
                remaining_before (remove1 (pos v) artifacts) ws (length ws))"
        "trace p (time_at_pickup v) (pos v) (remove1 (pos v) artifacts) ws"
        by blast
      have e: "elapsed_before (time_at_pickup v) ws (length ws) =
               elapsed_before t (v # ws) (length (v # ws))"
        by (cases ws) (simp_all add: elapsed_before_def)
      have r: "remaining_before (remove1 (pos v) artifacts) ws (length ws) =
               remaining_before artifacts (v # ws) (length (v # ws))"
        by (simp add: remaining_before_def)
      have "x = (elapsed_before t (v # ws) (length (v # ws)), vs @ (v # ws),
               score + sum_list (map gained (v # ws)),
               remaining_before artifacts (v # ws) (length (v # ws)))"
        using ws(1) e r by (simp add: add.assoc)
      moreover have "trace p t cur artifacts (v # ws)"
        using False free True quiet ws(2) by (simp add: v_def)
      ultimately show ?thesis by blast
    qed
  qed
qed

lemma trace_nth:
  "trace p t cur artifacts ws \<Longrightarrow> i < length ws \<Longrightarrow>
     remaining_before artifacts ws i \<noteq> [] \<and>
     blocked p (position_before cur ws i) (remaining_before artifacts ws i) = None \<and>
     fits p (elapsed_before t ws i) (position_before cur ws i) (remaining_before artifacts ws i) \<and>
     ws ! i = visit_at p (elapsed_before t ws i) (position_before cur ws i)
                (remaining_before artifacts ws i)"
proof (induction ws arbitrary: t cur artifacts i)
  case Nil
  then show ?case by simp
next
  case (Cons v ws)
  show ?case
  proof (cases i)
    case 0
    with Cons.prems show ?thesis
      by (simp add: elapsed_before_def position_before_def remaining_before_def)
  next
    case (Suc k)
    have e: "elapsed_before t (v # ws) (Suc k) = elapsed_before (time_at_pickup v) ws k"
      by (cases k) (simp_all add: elapsed_before_def)
    have c: "position_before cur (v # ws) (Suc k) = position_before (pos v) ws k"
      by (cases k) (simp_all add: position_before_def)
    have r: "remaining_before artifacts (v # ws) (Suc k) =
             remaining_before (remove1 (pos v) artifacts) ws k"
      by (simp add: remaining_before_def)
    have "trace p (time_at_pickup v) (pos v) (remove1 (pos v) artifacts) ws"
      using Cons.prems(1) by auto
    moreover have "k < length ws"
      using Cons.prems(2) Suc by simp
    ultimately show ?thesis
      using Cons.IH [of "time_at_pickup v" "pos v" "remove1 (pos v) artifacts" k]
      unfolding Suc e c r by simp
  qed
qed

lemma strategy_InrD:
  assumes "compute_strategy start artifacts p = Inr r"
  shows "trace p 0 start artifacts (visited r)"
    and "used_time r = elapsed_before 0 (visited r) (length (visited r))"
    and "remaining_artifacts r =
           length (remaining_before artifacts (visited r) (length (visited r)))"
    and "expected_score r = sum_list (map gained (visited r))"
    and "params_r r = p"
proof -
  from assms obtain x where x: "greedy_loop p 0 start [] 0 artifacts = Inr x"
    by (auto simp: compute_strategy_def split: sum.splits)
  from loop_result [OF x] obtain ws where ws: "x = (elapsed_before 0 ws (length ws), ws,
      sum_list (map gained ws), remaining_before artifacts ws (length ws))"
     and tr: "trace p 0 start artifacts ws"
    by auto
  from assms x ws have r: "r = \<lparr>visited = ws, expected_score = sum_list (map gained ws),
      used_time = elapsed_before 0 ws (length ws),
      remaining_artifacts = length (remaining_before artifacts ws (length ws)), params_r = p\<rparr>"
    by (simp add: compute_strategy_def)
  show "trace p 0 start artifacts (visited r)" using tr by (simp add: r)
  show "used_time r = elapsed_before 0 (visited r) (length (visited r))" by (simp add: r)
  show "remaining_artifacts r =
           length (remaining_before artifacts (visited r) (length (visited r)))" by (simp add: r)
  show "expected_score r = sum_list (map gained (visited r))" by (simp add: r)
  show "params_r r = p" by (simp add: r)
qed

lemma trace_mset:
  "trace p t cur artifacts ws \<Longrightarrow>
     mset (map pos ws) + mset (remaining_before artifacts ws (length ws)) = mset artifacts"
proof (induction ws arbitrary: t cur artifacts)
  case Nil
  then show ?case by (simp add: remaining_before_def)
next
  case (Cons v ws)
  then have ne: "artifacts \<noteq> []" and v: "v = visit_at p t cur artifacts"
    and tr: "trace p (time_at_pickup v) (pos v) (remove1 (pos v) artifacts) ws"
    by auto
  have mem: "pos v \<in># mset artifacts"
    using ne by (simp add: v visit_at_simps nearest_in_set)
  have r: "remaining_before artifacts (v # ws) (length (v # ws)) =
           remaining_before (remove1 (pos v) artifacts) ws (length ws)"
    by (simp add: remaining_before_def)
  from Cons.IH [OF tr]
  have "mset (map pos ws) + mset (remaining_before (remove1 (pos v) artifacts) ws (length ws))
          = mset artifacts - {#pos v#}"
    by simp
  then show ?case
    unfolding r using mem by simp
qed

section \<open>Distances and the nearest artifact\<close>

lemma euclid_nonneg: "0 \<le> euclid a b"
  by (simp add: euclid_def)

lemma euclid_eq_0_iff: "euclid a b = 0 \<longleftrightarrow> a = b"
proof -
  have "(fst a - fst b)\<^sup>2 + (snd a - snd b)\<^sup>2 = 0 \<longleftrightarrow> fst a = fst b \<and> snd a = snd b"
    by (simp add: sum_power2_eq_zero_iff)
  then show ?thesis
    by (simp add: euclid_def prod_eq_iff)
qed

lemma hd_insort_key:
  "hd (insort_key f x ys) = (if ys = [] \<or> f x \<le> f (hd ys) then x else hd ys)"
  by (cases ys) simp_all

lemma sort_key_not_Nil: "xs \<noteq> [] \<Longrightarrow> sort_key f xs \<noteq> []"
  by (metis length_sort length_0_conv)

lemma hd_sort_key_Cons:
  "hd (sort_key f (x # xs)) =
     (if xs = [] \<or> f x \<le> f (hd (sort_key f xs)) then x else hd (sort_key f xs))"
  by (auto simp: hd_insort_key sort_key_not_Nil)

lemma hd_sort_key_first_least:
  "xs \<noteq> [] \<Longrightarrow>
     (\<forall>y\<in>set xs. f (hd (sort_key f xs)) \<le> f y) \<and>
     (\<exists>k<length xs. xs ! k = hd (sort_key f xs) \<and> (\<forall>j<k. f (hd (sort_key f xs)) < f (xs ! j)))"
proof (induction xs)
  case Nil
  then show ?case by simp
next
  case (Cons x xs)
  show ?case
  proof (cases "xs = [] \<or> f x \<le> f (hd (sort_key f xs))")
    case True
    then have h: "hd (sort_key f (x # xs)) = x"
      by (simp only: hd_sort_key_Cons if_True)
    have "\<forall>y\<in>set (x # xs). f x \<le> f y"
    proof (cases "xs = []")
      case True
      then show ?thesis by simp
    next
      case False
      with True Cons.IH show ?thesis by fastforce
    qed
    moreover have "\<exists>k<length (x # xs). (x # xs) ! k = x \<and> (\<forall>j<k. f x < f ((x # xs) ! j))"
      by (rule exI [of _ 0]) simp
    ultimately show ?thesis unfolding h by blast
  next
    case False
    then have ne: "xs \<noteq> []" and lt: "f (hd (sort_key f xs)) < f x" by auto
    from False have h: "hd (sort_key f (x # xs)) = hd (sort_key f xs)"
      by (simp only: hd_sort_key_Cons if_False)
    from Cons.IH [OF ne] obtain k where least: "\<forall>y\<in>set xs. f (hd (sort_key f xs)) \<le> f y"
      and k: "k < length xs" "xs ! k = hd (sort_key f xs)"
        "\<forall>j<k. f (hd (sort_key f xs)) < f (xs ! j)"
      by blast
    have "\<forall>y\<in>set (x # xs). f (hd (sort_key f xs)) \<le> f y"
      using least lt by auto
    moreover have "\<forall>j<Suc k. f (hd (sort_key f xs)) < f ((x # xs) ! j)"
    proof (intro allI impI)
      fix j assume "j < Suc k"
      then show "f (hd (sort_key f xs)) < f ((x # xs) ! j)"
        using lt k(3) by (cases j) simp_all
    qed
    then have "\<exists>k'<length (x # xs). (x # xs) ! k' = hd (sort_key f xs)
         \<and> (\<forall>j<k'. f (hd (sort_key f xs)) < f ((x # xs) ! j))"
      using k(1,2) by (intro exI [of _ "Suc k"]) simp
    ultimately show ?thesis unfolding h by blast
  qed
qed

lemma nearest_first_least:
  assumes "artifacts \<noteq> []"
  shows "(\<forall>a\<in>set artifacts. fst (nearest cur artifacts) \<le> euclid cur a) \<and>
     (\<exists>k<length artifacts. artifacts ! k = snd (nearest cur artifacts) \<and>
        (\<forall>j<k. fst (nearest cur artifacts) < euclid cur (artifacts ! j)))"
proof -
  let ?xs = "map (\<lambda>a. (euclid cur a, a)) artifacts"
  have ne: "?xs \<noteq> []" using assms by simp
  from hd_sort_key_first_least [OF ne, of fst]
  obtain k where least: "\<forall>y\<in>set ?xs. fst (nearest cur artifacts) \<le> fst y"
    and k: "k < length ?xs" "?xs ! k = nearest cur artifacts"
      "\<forall>j<k. fst (nearest cur artifacts) < fst (?xs ! j)"
    unfolding nearest_eq by blast
  have "\<forall>a\<in>set artifacts. fst (nearest cur artifacts) \<le> euclid cur a"
    using least by simp
  moreover have "k < length artifacts" using k(1) by simp
  moreover have "artifacts ! k = snd (nearest cur artifacts)"
    using k(1,2) by (metis length_map nth_map snd_conv)
  moreover have "\<forall>j<k. fst (nearest cur artifacts) < euclid cur (artifacts ! j)"
    using k(1,3) by simp
  ultimately show ?thesis by blast
qed

lemma subseq_remaining_before: "subseq (remaining_before artifacts ws i) artifacts"
proof -
  have "subseq (foldl (\<lambda>l v. remove1 (pos v) l) xs ys) xs" for xs :: "point list" and ys
  proof (induction ys arbitrary: xs)
    case Nil
    then show ?case by simp
  next
    case (Cons y ys)
    have "subseq (foldl (\<lambda>l v. remove1 (pos v) l) (remove1 (pos y) xs) ys) (remove1 (pos y) xs)"
      by (rule Cons.IH)
    moreover have "subseq (remove1 (pos y) xs) xs"
      by (induction xs) auto
    ultimately show ?case
      by (simp add: subseq_order.order_trans)
  qed
  then show ?thesis by (simp add: remaining_before_def)
qed

lemma strategy_nth:
  assumes "compute_strategy start artifacts p = Inr r" and "i < length (visited r)"
  shows "remaining_before artifacts (visited r) i \<noteq> []"
    and "visited r ! i = visit_at p (elapsed_before 0 (visited r) i)
           (position_before start (visited r) i) (remaining_before artifacts (visited r) i)"
  using trace_nth [OF strategy_InrD(1) [OF assms(1)] assms(2)] by simp_all

section \<open>Inputs on which no iteration raises\<close>

lemma moderate_not_too_large: "moderate x \<Longrightarrow> \<not> too_large x"
proof -
  have "(2::real) ^ 500 < 2 ^ 1024 - 2 ^ 970" by simp
  then show "moderate x \<Longrightarrow> \<not> too_large x"
    by (simp add: moderate_def too_large_def)
qed

lemma moderate_sum_not_too_large:
  assumes "moderate x" and "moderate y"
  shows "\<not> too_large (x + y)" and "\<not> too_large (x - y)"
proof -
  have big: "(2::real) ^ 500 + 2 ^ 500 < 2 ^ 1024 - 2 ^ 970" by simp
  have "\<bar>x + y\<bar> \<le> 2 ^ 500 + 2 ^ 500" and "\<bar>x - y\<bar> \<le> 2 ^ 500 + 2 ^ 500"
    using assms by (simp_all add: moderate_def abs_le_iff)
  with big show "\<not> too_large (x + y)" and "\<not> too_large (x - y)"
    by (simp_all add: too_large_def)
qed

lemma moderate_euclid_quiet:
  "moderate (fst a) \<Longrightarrow> moderate (snd a) \<Longrightarrow> moderate (fst b) \<Longrightarrow> moderate (snd b) \<Longrightarrow>
     \<not> euclid_raises a b"
  by (simp add: euclid_raises_def moderate_sum_not_too_large)

lemma moderate_zero: "moderate 0"
  by (simp add: moderate_def)

lemma loop_returns:
  assumes speed: "get (robot_speed p) 100 \<noteq> 0" "moderate (get (robot_speed p) 100)"
    and pickup: "moderate (get (pickup_time p) 3)"
    and points: "moderate (get (points_per_artifact p) 5)" "moderate (get (decode_bonus p) 3)"
    and centre: "moderate (fst (fst (get (decode_zone p) ((450, 100), 80))))"
      "moderate (snd (fst (get (decode_zone p) ((450, 100), 80))))"
    and multiplier: "moderate (get (auton_multiplier p) 1.5)"
  shows "list_all (\<lambda>a. moderate (fst a) \<and> moderate (snd a)) (cur # artifacts) \<Longrightarrow>
           \<exists>x. greedy_loop p t cur vs score artifacts = Inr x"
proof (induction artifacts arbitrary: t cur vs score rule: length_induct)
  case (1 artifacts)
  from "1.prems" have cur: "moderate (fst cur)" "moderate (snd cur)"
    and arts: "\<forall>a\<in>set artifacts. moderate (fst a) \<and> moderate (snd a)"
    by (simp_all add: list_all_iff)
  show ?case
  proof (cases "artifacts = []")
    case True
    then show ?thesis by (simp add: loop_empty)
  next
    case False
    have "\<not> (\<exists>a\<in>set artifacts. euclid_raises cur a)"
      using cur arts by (auto simp: moderate_euclid_quiet)
    then have free: "blocked p cur artifacts = None"
      using speed pickup by (simp add: blocked_def moderate_not_too_large)
    show ?thesis
    proof (cases "fits p t cur artifacts")
      case nofit: False
      with False free show ?thesis by (simp add: loop_stop)
    next
      case True
      define v where "v = visit_at p t cur artifacts"
      have mem: "pos v \<in> set artifacts"
        using False by (simp add: v_def visit_at_simps nearest_in_set)
      then have target: "moderate (fst (pos v))" "moderate (snd (pos v))"
        using arts by simp_all
      have "moderate (bonus_points v)"
        using points(2) by (simp add: v_def visit_at_simps moderate_zero)
      moreover have "moderate (base_points v)"
        using points(1) by (simp add: v_def visit_at_simps)
      ultimately have "\<not> too_large (base_points v + bonus_points v)"
        by (simp add: moderate_sum_not_too_large)
      moreover have "\<not> euclid_raises (pos v) (fst (get (decode_zone p) ((450, 100), 80)))"
        using target centre by (rule moderate_euclid_quiet)
      ultimately have quiet: "\<not> scoring_raises p v"
        using multiplier by (simp add: scoring_raises_def moderate_not_too_large)
      have shorter: "length (remove1 (pos v) artifacts) < length artifacts"
        using mem by (metis length_pos_if_in_set length_remove1 diff_less zero_less_one)
      have "\<forall>a\<in>set (remove1 (pos v) artifacts). moderate (fst a) \<and> moderate (snd a)"
        using arts by (meson notin_set_remove1)
      with target have "list_all (\<lambda>a. moderate (fst a) \<and> moderate (snd a))
          (pos v # remove1 (pos v) artifacts)"
        by (simp add: list_all_iff)
      with "1.IH" shorter obtain x where
        "greedy_loop p (time_at_pickup v) (pos v) (vs @ [v]) (score + gained v)
           (remove1 (pos v) artifacts) = Inr x"
        by blast
      moreover have "greedy_loop p t cur vs score artifacts =
          greedy_loop p (time_at_pickup v) (pos v) (vs @ [v]) (score + gained v)
            (remove1 (pos v) artifacts)"
        unfolding v_def using False free True quiet [unfolded v_def] by (rule loop_go)
      ultimately have "greedy_loop p t cur vs score artifacts = Inr x"
        by (simp only:)
      then show ?thesis by (rule exI)
    qed
  qed
qed

lemma strategy_returns:
  assumes "moderate_input start artifacts p" and "get (robot_speed p) 100 \<noteq> 0"
  shows "\<exists>r. compute_strategy start artifacts p = Inr r"
proof -
  from assms have "\<exists>x. greedy_loop p 0 start [] 0 artifacts = Inr x"
    by (intro loop_returns) (simp_all add: moderate_input_def)
  then obtain x where "greedy_loop p 0 start [] 0 artifacts = Inr x" by blast
  then show ?thesis by (cases x) (simp add: compute_strategy_def)
qed

lemma moderate_input_blocked:
  assumes "moderate_input start artifacts p"
  shows "blocked p start artifacts =
           (if get (robot_speed p) 100 = 0 then Some ZeroDivisionError else None)"
proof -
  from assms have start: "moderate (fst start)" "moderate (snd start)"
    and arts: "\<forall>a\<in>set artifacts. moderate (fst a) \<and> moderate (snd a)"
    and rest: "moderate (get (robot_speed p) 100)" "moderate (get (pickup_time p) 3)"
    by (simp_all add: moderate_input_def list_all_iff)
  have "\<not> (\<exists>a\<in>set artifacts. euclid_raises start a)"
    using start arts by (auto simp: moderate_euclid_quiet)
  then show ?thesis
    using rest by (simp add: blocked_def moderate_not_too_large)
qed

lemma strategy_stops_at_once:
  assumes "artifacts \<noteq> []" and "blocked p start artifacts = None"
    and "get (match_time p) 150
           < fst (nearest start artifacts) / get (robot_speed p) 100 + get (pickup_time p) 3"
  shows "compute_strategy start artifacts p =
           Inr \<lparr>visited = [], expected_score = 0, used_time = 0,
                remaining_artifacts = length artifacts, params_r = p\<rparr>"
proof -
  have "\<not> fits p 0 start artifacts"
    using assms(3) by (simp add: fits_def)
  with assms(1,2) have "greedy_loop p 0 start [] 0 artifacts = Inr (0, [], 0, artifacts)"
    by (rule loop_stop)
  then show ?thesis by (simp add: compute_strategy_def)
qed

section \<open>Runs of the planner\<close>

lemma euclid_vertical: "euclid (x, y) (x, y') = \<bar>y - y'\<bar>"
  by (simp add: euclid_def)

lemma scenario_run:
  "compute_strategy (0, 0) scenario_targets scenario_params = Inr scenario_plan"
  by (simp add: compute_strategy_def greedy_loop.simps nearest_def get_def euclid_vertical
        euclid_raises_def too_large_def
        Let_def scenario_params_def scenario_targets_def scenario_plan_def)

lemma coincident_run:
  "compute_strategy (0, 0) [(0, 0), (0, 0)] (scenario_params\<lparr>pickup_time := Some 0\<rparr>)
     = Inr coincident_plan"
  by (simp add: compute_strategy_def greedy_loop.simps nearest_def get_def euclid_vertical
        euclid_raises_def too_large_def
        Let_def scenario_params_def coincident_plan_def)

section \<open>The time budget\<close>

text \<open>
  C1. With a positive speed, a match time that is not negative and a pickup time that is
  not negative, the used time of the plan is at most the match time. In the exact
  arithmetic of this model that holds: an iteration appends its visit only when the clock
  at its start plus the travel time plus the pickup time is at most the match time, and
  that sum is the time the visit records. The program adds in doubles and in another order,
  \<open>t + (travel + pickup)\<close> in the test of line 52 and \<open>(t + travel) + pickup\<close> for the
  clock of lines 56 and 60, and the second sum can round above the first. From the start
  \<open>(0, 0)\<close> with the targets \<open>(0, 5)\<close>, \<open>(0, 7)\<close> and \<open>(0, 9)\<close>, speed 3, pickup time 1 and
  match time 6, the third test is \<open>4.333333333333334 + 1.6666666666666665 = 6.0\<close>, the visit
  is made, and the clock becomes \<open>5.000000000000001 + 1 = 6.000000000000001\<close>.
\<close>

lemma budget_in_exact_arithmetic:
  assumes "compute_strategy start artifacts p = Inr r"
    and "get (match_time p) 150 \<ge> 0"
  shows "used_time r \<le> get (match_time p) 150"
    and "i < length (visited r) \<Longrightarrow> time_at_pickup (visited r ! i) \<le> get (match_time p) 150"
proof -
  note tr = strategy_InrD(1) [OF assms(1)]
  have each: "time_at_pickup (visited r ! i) \<le> get (match_time p) 150"
    if "i < length (visited r)" for i
  proof -
    from trace_nth [OF tr that]
    have f: "fits p (elapsed_before 0 (visited r) i) (position_before start (visited r) i)
               (remaining_before artifacts (visited r) i)"
      and v: "visited r ! i = visit_at p (elapsed_before 0 (visited r) i)
               (position_before start (visited r) i) (remaining_before artifacts (visited r) i)"
      by simp_all
    from f show ?thesis
      by (subst v) (simp add: fits_def visit_at_simps)
  qed
  show "used_time r \<le> get (match_time p) 150"
  proof (cases "visited r = []")
    case True
    then show ?thesis
      using assms(2) by (simp add: strategy_InrD(2) [OF assms(1)] elapsed_before_def)
  next
    case False
    then have "length (visited r) - 1 < length (visited r)" by simp
    from each [OF this] False show ?thesis
      by (simp add: strategy_InrD(2) [OF assms(1)] elapsed_before_def)
  qed
  show "i < length (visited r) \<Longrightarrow> time_at_pickup (visited r ! i) \<le> get (match_time p) 150"
    by (rule each)
qed

section \<open>Conservation of the targets\<close>

text \<open>
  C2. The number of visits plus the count of artifacts left is the length of the input list,
  whatever the list holds (duplicates, nothing at all); the visited targets are entries of
  the input, each entry used at most once, and the count left is the number of entries that
  were not visited.
\<close>

theorem conservation:
  assumes "compute_strategy start artifacts p = Inr r"
  shows "length (visited r) + remaining_artifacts r = length artifacts
       \<and> mset (map pos (visited r)) \<subseteq># mset artifacts
       \<and> remaining_artifacts r = size (mset artifacts - mset (map pos (visited r)))"
proof -
  let ?rem = "remaining_before artifacts (visited r) (length (visited r))"
  have m: "mset (map pos (visited r)) + mset ?rem = mset artifacts"
    using strategy_InrD(1) [OF assms] by (rule trace_mset)
  have n: "remaining_artifacts r = length ?rem"
    using assms by (rule strategy_InrD(3))
  have "size (mset (map pos (visited r)) + mset ?rem) = size (mset artifacts)"
    by (simp only: m)
  then have "length (visited r) + remaining_artifacts r = length artifacts"
    by (simp add: n)
  moreover have "mset (map pos (visited r)) \<subseteq># mset artifacts"
    by (metis m mset_subset_eq_add_left)
  moreover have "mset artifacts - mset (map pos (visited r)) = mset ?rem"
    by (metis m add_diff_cancel_left')
  then have "remaining_artifacts r = size (mset artifacts - mset (map pos (visited r)))"
    by (simp add: n)
  ultimately show ?thesis by simp
qed

theorem conservation_witness:
  "compute_strategy (0, 0) scenario_targets scenario_params = Inr scenario_plan
   \<and> length (visited scenario_plan) + remaining_artifacts scenario_plan = length scenario_targets
   \<and> mset (map pos (visited scenario_plan)) \<subseteq># mset scenario_targets
   \<and> remaining_artifacts scenario_plan
       = size (mset scenario_targets - mset (map pos (visited scenario_plan)))"
  using conservation [OF scenario_run] scenario_run by simp

section \<open>Parameters are not validated\<close>

text \<open>
  C3, as the specification states it: a speed of zero or less, a negative pickup time, a
  negative match time or an autonomous window outside the match makes the planner fail with
  an invalid-parameter error before it plans anything. The planner has no such check: with
  every one of these parameters out of range it plans all three targets of the example.
\<close>

theorem invalid_parameter_counterexample:
  "get (robot_speed invalid_params) 100 \<le> 0
   \<and> get (pickup_time invalid_params) 3 < 0
   \<and> get (match_time invalid_params) 150 < 0
   \<and> \<not> (0 \<le> get (auton_time invalid_params) 30
         \<and> get (auton_time invalid_params) 30 \<le> get (match_time invalid_params) 150)
   \<and> compute_strategy (0, 0) scenario_targets invalid_params = Inr invalid_plan"
  by (simp add: compute_strategy_def greedy_loop.simps nearest_def get_def euclid_vertical
        euclid_raises_def too_large_def
        Let_def invalid_params_def scenario_targets_def invalid_plan_def)

text \<open>
  C3, amended. The planner checks none of its parameters and has no invalid-parameter
  error. On every input whose numbers are at most \<open>2 ^ 500\<close> in magnitude, those with a
  negative speed, a negative pickup time, a negative match time or an autonomous window
  outside the match among them, it returns a plan when the speed is not zero; when the
  speed is zero and the target list is not empty it fails with the division by zero of the
  first travel time. With an empty target list it returns the empty plan.
\<close>

theorem no_parameter_validation:
  assumes "moderate_input start artifacts p"
  shows "(get (robot_speed p) 100 \<noteq> 0 \<longrightarrow> (\<exists>r. compute_strategy start artifacts p = Inr r))
   \<and> (get (robot_speed p) 100 = 0 \<and> artifacts \<noteq> []
        \<longrightarrow> compute_strategy start artifacts p = Inl ZeroDivisionError)
   \<and> (artifacts = []
        \<longrightarrow> compute_strategy start artifacts p =
              Inr \<lparr>visited = [], expected_score = 0, used_time = 0, remaining_artifacts = 0,
                   params_r = p\<rparr>)"
proof (intro conjI impI)
  assume "get (robot_speed p) 100 \<noteq> 0"
  with assms show "\<exists>r. compute_strategy start artifacts p = Inr r"
    by (rule strategy_returns)
next
  assume a: "get (robot_speed p) 100 = 0 \<and> artifacts \<noteq> []"
  then have "blocked p start artifacts = Some ZeroDivisionError"
    by (simp add: moderate_input_blocked [OF assms])
  with a have "greedy_loop p 0 start [] 0 artifacts = Inl ZeroDivisionError"
    by (simp add: loop_blocked)
  then show "compute_strategy start artifacts p = Inl ZeroDivisionError"
    by (simp add: compute_strategy_def)
next
  assume "artifacts = []"
  then show "compute_strategy start artifacts p =
              Inr \<lparr>visited = [], expected_score = 0, used_time = 0, remaining_artifacts = 0,
                   params_r = p\<rparr>"
    by (simp add: compute_strategy_def loop_empty)
qed

theorem no_parameter_validation_witness:
  "moderate_input (0, 0) scenario_targets invalid_params
   \<and> get (robot_speed invalid_params) 100 \<noteq> 0
   \<and> (\<exists>r. compute_strategy (0, 0) scenario_targets invalid_params = Inr r)
   \<and> moderate_input (0, 0) scenario_targets (invalid_params\<lparr>robot_speed := Some 0\<rparr>)
   \<and> get (robot_speed (invalid_params\<lparr>robot_speed := Some 0\<rparr>)) 100 = 0
   \<and> scenario_targets \<noteq> []
   \<and> compute_strategy (0, 0) scenario_targets (invalid_params\<lparr>robot_speed := Some 0\<rparr>)
       = Inl ZeroDivisionError
   \<and> moderate_input (0, 0) [] (invalid_params\<lparr>robot_speed := Some 0\<rparr>)
   \<and> compute_strategy (0, 0) [] (invalid_params\<lparr>robot_speed := Some 0\<rparr>)
       = Inr \<lparr>visited = [], expected_score = 0, used_time = 0, remaining_artifacts = 0,
              params_r = invalid_params\<lparr>robot_speed := Some 0\<rparr>\<rparr>"
proof -
  have m: "moderate_input (0, 0) scenario_targets invalid_params"
    "moderate_input (0, 0) scenario_targets (invalid_params\<lparr>robot_speed := Some 0\<rparr>)"
    "moderate_input (0, 0) [] (invalid_params\<lparr>robot_speed := Some 0\<rparr>)"
    by (simp_all add: moderate_input_def moderate_def scenario_targets_def invalid_params_def
          get_def)
  have a: "get (robot_speed invalid_params) 100 \<noteq> 0"
    by (simp add: invalid_params_def get_def)
  have b: "get (robot_speed (invalid_params\<lparr>robot_speed := Some 0\<rparr>)) 100 = 0"
    by (simp add: get_def)
  have c: "scenario_targets \<noteq> []"
    by (simp add: scenario_targets_def)
  from no_parameter_validation [OF m(1)] no_parameter_validation [OF m(2)]
    no_parameter_validation [OF m(3)] m a b c
  show ?thesis by simp
qed

section \<open>The autonomous window\<close>

text \<open>
  C4. The flag \<open>in_auton\<close> of a visit tells whether the clock at arrival, that is the clock
  at the start of the iteration plus the travel time and before the pickup time is added,
  is at most the autonomous window. An arrival exactly at the end of the window counts as
  inside.
\<close>

theorem in_auton_at_arrival:
  assumes "compute_strategy start artifacts p = Inr r" and "i < length (visited r)"
  shows "in_auton (visited r ! i) =
           (elapsed_before 0 (visited r) i + travel_time (visited r ! i) \<le> get (auton_time p) 30)"
  by (subst (1 2) strategy_nth(2) [OF assms]) (simp add: visit_at_simps)

theorem in_auton_at_arrival_witness:
  "compute_strategy (0, 0) scenario_targets scenario_params = Inr scenario_plan
   \<and> 0 < length (visited scenario_plan)
   \<and> elapsed_before 0 (visited scenario_plan) 0 + travel_time (visited scenario_plan ! 0)
       = get (auton_time scenario_params) 30
   \<and> in_auton (visited scenario_plan ! 0)"
proof -
  have n: "0 < length (visited scenario_plan)" by (simp add: scenario_plan_def)
  have "elapsed_before 0 (visited scenario_plan) 0 + travel_time (visited scenario_plan ! 0)
       = get (auton_time scenario_params) 30"
    by (simp add: scenario_plan_def scenario_params_def elapsed_before_def get_def)
  with in_auton_at_arrival [OF scenario_run n] scenario_run n show ?thesis by simp
qed

section \<open>The choice of the next target\<close>

text \<open>
  C5. Each iteration that appends a visit goes to an entry of the working list at the least
  distance from the current position, and among the entries at that distance to the one
  listed first: every entry before it is strictly farther. The working list keeps the order
  of the input list.
\<close>

theorem nearest_first_listed:
  assumes "compute_strategy start artifacts p = Inr r" and "i < length (visited r)"
  shows "subseq (remaining_before artifacts (visited r) i) artifacts
       \<and> (\<forall>a\<in>set (remaining_before artifacts (visited r) i).
             euclid (position_before start (visited r) i) (pos (visited r ! i))
               \<le> euclid (position_before start (visited r) i) a)
       \<and> (\<exists>k<length (remaining_before artifacts (visited r) i).
             remaining_before artifacts (visited r) i ! k = pos (visited r ! i)
           \<and> (\<forall>j<k. euclid (position_before start (visited r) i) (pos (visited r ! i))
                      < euclid (position_before start (visited r) i)
                          (remaining_before artifacts (visited r) i ! j)))"
proof -
  let ?cur = "position_before start (visited r) i"
  let ?rem = "remaining_before artifacts (visited r) i"
  have ne: "?rem \<noteq> []" using assms by (rule strategy_nth(1))
  have "pos (visited r ! i) = snd (nearest ?cur ?rem)"
    by (subst strategy_nth(2) [OF assms]) (simp add: visit_at_simps)
  moreover from nearest_dist [OF ne]
  have "fst (nearest ?cur ?rem) = euclid ?cur (snd (nearest ?cur ?rem))" .
  ultimately have d: "fst (nearest ?cur ?rem) = euclid ?cur (pos (visited r ! i))"
    and t: "snd (nearest ?cur ?rem) = pos (visited r ! i)"
    by simp_all
  from nearest_first_least [OF ne, of ?cur] subseq_remaining_before [of artifacts "visited r" i]
  show ?thesis unfolding d t by simp
qed

theorem nearest_first_listed_witness:
  "compute_strategy (0, 0) scenario_targets scenario_params = Inr scenario_plan
   \<and> 0 < length (visited scenario_plan)
   \<and> remaining_before scenario_targets (visited scenario_plan) 0 = [(0, 10), (0, -10), (0, 2000)]
   \<and> position_before (0, 0) (visited scenario_plan) 0 = (0, 0)
   \<and> euclid (0, 0) (0, 10) = euclid (0, 0) (0, -10)
   \<and> pos (visited scenario_plan ! 0) = (0, 10)
   \<and> euclid (position_before (0, 0) (visited scenario_plan) 0) (pos (visited scenario_plan ! 0))
       \<le> euclid (position_before (0, 0) (visited scenario_plan) 0) (0, 2000)
   \<and> subseq (remaining_before scenario_targets (visited scenario_plan) 0) scenario_targets"
proof -
  have n: "0 < length (visited scenario_plan)" by (simp add: scenario_plan_def)
  have r: "remaining_before scenario_targets (visited scenario_plan) 0
             = [(0, 10), (0, -10), (0, 2000)]"
    and "position_before (0, 0) (visited scenario_plan) 0 = (0, 0)"
    and "euclid (0, 0) (0, 10) = euclid (0, 0) (0, -10)"
    and "pos (visited scenario_plan ! 0) = (0, 10)"
    by (simp_all add: remaining_before_def position_before_def scenario_targets_def
          scenario_plan_def euclid_vertical)
  moreover have "(0, 2000) \<in> set (remaining_before scenario_targets (visited scenario_plan) 0)"
    by (simp add: r)
  ultimately show ?thesis
    using nearest_first_listed [OF scenario_run n] scenario_run n by auto
qed

section \<open>Points\<close>

text \<open>
  C6. A visit carries the bonus points exactly when its target is within the radius of the
  centre of the decode zone, the boundary included, and no bonus otherwise. Its gained
  points are the base points plus the bonus, multiplied by the autonomous multiplier exactly
  when the visit is in the autonomous window.
\<close>

theorem bonus_and_gained:
  assumes "compute_strategy start artifacts p = Inr r" and "v \<in> set (visited r)"
  shows "base_points v = get (points_per_artifact p) 5
       \<and> bonus_points v =
           (if euclid (pos v) (fst (get (decode_zone p) ((450, 100), 80)))
                 \<le> snd (get (decode_zone p) ((450, 100), 80))
            then get (decode_bonus p) 3 else 0)
       \<and> gained v =
           (if in_auton v then (base_points v + bonus_points v) * get (auton_multiplier p) 1.5
            else base_points v + bonus_points v)"
proof -
  from assms(2) obtain i where i: "i < length (visited r)" and v: "v = visited r ! i"
    by (metis in_set_conv_nth)
  have "v = visit_at p (elapsed_before 0 (visited r) i)
           (position_before start (visited r) i) (remaining_before artifacts (visited r) i)"
    unfolding v using assms(1) i by (rule strategy_nth(2))
  then show ?thesis
    by (simp only: visit_at_simps gained_visit_at simp_thms)
qed


theorem bonus_and_gained_witness:
  "compute_strategy (0, 0) scenario_targets scenario_params = Inr scenario_plan
   \<and> visited scenario_plan ! 0 \<in> set (visited scenario_plan)
   \<and> euclid (pos (visited scenario_plan ! 0)) (fst (get (decode_zone scenario_params) ((450, 100), 80)))
       = snd (get (decode_zone scenario_params) ((450, 100), 80))
   \<and> bonus_points (visited scenario_plan ! 0) = get (decode_bonus scenario_params) 3
   \<and> gained (visited scenario_plan ! 0) = (5 + 3) * 2"
proof -
  have m: "visited scenario_plan ! 0 \<in> set (visited scenario_plan)"
    by (simp add: scenario_plan_def)
  have d: "euclid (pos (visited scenario_plan ! 0))
             (fst (get (decode_zone scenario_params) ((450, 100), 80)))
       = snd (get (decode_zone scenario_params) ((450, 100), 80))"
    by (simp add: scenario_plan_def scenario_params_def get_def euclid_vertical)
  have g: "gained (visited scenario_plan ! 0) = (5 + 3) * 2"
    by (simp add: scenario_plan_def)
  from bonus_and_gained [OF scenario_run m] d
  have "bonus_points (visited scenario_plan ! 0) = get (decode_bonus scenario_params) 3"
    by simp
  with scenario_run m d g show ?thesis by simp
qed

section \<open>The recorded time\<close>

text \<open>
  C7, as the specification states it: the time recorded by a visit is the clock when the
  pickup begins, after the travel and before the pickup time is added. In the example the
  first visit arrives at time 1 and records time 4.
\<close>

theorem time_at_pickup_counterexample:
  "compute_strategy (0, 0) scenario_targets scenario_params = Inr scenario_plan
   \<and> elapsed_before 0 (visited scenario_plan) 0 + travel_time (visited scenario_plan ! 0) = 1
   \<and> time_at_pickup (visited scenario_plan ! 0) = 4
   \<and> time_at_pickup (visited scenario_plan ! 0)
       \<noteq> elapsed_before 0 (visited scenario_plan) 0 + travel_time (visited scenario_plan ! 0)"
  using scenario_run by (simp add: scenario_plan_def elapsed_before_def)

text \<open>
  C7, amended. The time recorded by a visit is the clock when the pickup is complete: the
  clock at the start of the iteration plus the travel time plus the pickup time, which is
  the pickup time of the parameters.
\<close>

theorem time_at_pickup_after_pickup:
  assumes "compute_strategy start artifacts p = Inr r" and "i < length (visited r)"
  shows "time_at_pickup (visited r ! i) =
           elapsed_before 0 (visited r) i + travel_time (visited r ! i) + pickup_time_v (visited r ! i)
       \<and> pickup_time_v (visited r ! i) = get (pickup_time p) 3"
  by (subst (1 2 3 4) strategy_nth(2) [OF assms]) (simp add: visit_at_simps)

theorem time_at_pickup_after_pickup_witness:
  "compute_strategy (0, 0) scenario_targets scenario_params = Inr scenario_plan
   \<and> 1 < length (visited scenario_plan)
   \<and> time_at_pickup (visited scenario_plan ! 1) =
       elapsed_before 0 (visited scenario_plan) 1 + travel_time (visited scenario_plan ! 1)
         + pickup_time_v (visited scenario_plan ! 1)
   \<and> pickup_time_v (visited scenario_plan ! 1) = get (pickup_time scenario_params) 3"
proof -
  have n: "1 < length (visited scenario_plan)" by (simp add: scenario_plan_def)
  from time_at_pickup_after_pickup [OF scenario_run n] scenario_run n show ?thesis by simp
qed

section \<open>The order of the recorded times\<close>

text \<open>
  C8, as the specification states it: with a positive speed and a pickup time and a match
  time that are not negative, the recorded times increase strictly from each visit to the
  next. With a pickup time of zero and two targets on the start itself, both visits record
  time 0.
\<close>

theorem strictly_increasing_counterexample:
  "0 < get (robot_speed (scenario_params\<lparr>pickup_time := Some 0\<rparr>)) 100
   \<and> 0 \<le> get (pickup_time (scenario_params\<lparr>pickup_time := Some 0\<rparr>)) 3
   \<and> 0 \<le> get (match_time (scenario_params\<lparr>pickup_time := Some 0\<rparr>)) 150
   \<and> compute_strategy (0, 0) [(0, 0), (0, 0)] (scenario_params\<lparr>pickup_time := Some 0\<rparr>)
       = Inr coincident_plan
   \<and> \<not> time_at_pickup (visited coincident_plan ! 0) < time_at_pickup (visited coincident_plan ! 1)"
  using coincident_run by (simp add: coincident_plan_def scenario_params_def get_def)

text \<open>
  C8, amended. With a positive speed and a pickup time and a match time that are not
  negative, the recorded times never decrease from a visit to the next.
\<close>

theorem times_nondecreasing:
  assumes "get (robot_speed p) 100 > 0"
    and "get (pickup_time p) 3 \<ge> 0"
    and "get (match_time p) 150 \<ge> 0"
    and "compute_strategy start artifacts p = Inr r"
    and "Suc i < length (visited r)"
  shows "time_at_pickup (visited r ! i) \<le> time_at_pickup (visited r ! Suc i)"
proof -
  let ?rem = "remaining_before artifacts (visited r) (Suc i)"
  have e: "elapsed_before 0 (visited r) (Suc i) = time_at_pickup (visited r ! i)"
    and c: "position_before start (visited r) (Suc i) = pos (visited r ! i)"
    by (simp_all add: elapsed_before_def position_before_def)
  note v = strategy_nth(2) [OF assms(4,5), unfolded e c]
  have ne: "?rem \<noteq> []" using assms(4,5) by (rule strategy_nth(1))
  have "0 \<le> fst (nearest (pos (visited r ! i)) ?rem)"
    using nearest_dist [OF ne, of "pos (visited r ! i)"] by (simp add: euclid_nonneg)
  then have d0: "0 \<le> fst (nearest (pos (visited r ! i)) ?rem) / get (robot_speed p) 100"
    using assms(1) by simp
  have "time_at_pickup (visited r ! Suc i) =
        time_at_pickup (visited r ! i)
          + fst (nearest (pos (visited r ! i)) ?rem) / get (robot_speed p) 100
          + get (pickup_time p) 3"
    by (subst v) (simp add: visit_at_simps)
  with d0 assms(2) show ?thesis by linarith
qed

theorem times_nondecreasing_witness:
  "get (robot_speed scenario_params) 100 > 0
   \<and> get (pickup_time scenario_params) 3 \<ge> 0
   \<and> get (match_time scenario_params) 150 \<ge> 0
   \<and> compute_strategy (0, 0) scenario_targets scenario_params = Inr scenario_plan
   \<and> Suc 0 < length (visited scenario_plan)
   \<and> time_at_pickup (visited scenario_plan ! 0) \<le> time_at_pickup (visited scenario_plan ! Suc 0)"
proof -
  have h: "get (robot_speed scenario_params) 100 > 0" "get (pickup_time scenario_params) 3 \<ge> 0"
    "get (match_time scenario_params) 150 \<ge> 0"
    by (simp_all add: scenario_params_def get_def)
  have n: "Suc 0 < length (visited scenario_plan)" by (simp add: scenario_plan_def)
  from times_nondecreasing [OF h scenario_run n] h n scenario_run show ?thesis by simp
qed

section \<open>Normal return\<close>

text \<open>
  C9, as the claim states it: with a positive speed and finite coordinates the planner
  returns a plan and raises nothing, whatever the other values are. A coordinate that is a
  Python int beyond the range of a double is finite, and line 9 raises on it.
\<close>

theorem returns_counterexample:
  "0 < get (robot_speed scenario_params) 100
   \<and> compute_strategy (0, 0) [(0, 10 ^ 400)] scenario_params = Inl OverflowError"
  by (simp add: compute_strategy_def greedy_loop.simps get_def euclid_raises_def too_large_def
        Let_def scenario_params_def)

text \<open>
  C9, amended. On every input whose numbers are at most \<open>2 ^ 500\<close> in magnitude and whose
  speed is positive the planner returns a plan and raises nothing, whatever the other
  parameters are. When the match time is less than the travel time to the nearest target
  plus the pickup time, as with a negative match time here, the plan has no visit, score 0,
  used time 0, and every target is left.
\<close>

theorem returns_for_positive_speed:
  assumes "moderate_input start artifacts p"
    and "get (robot_speed p) 100 > 0"
  shows "(\<exists>r. compute_strategy start artifacts p = Inr r)
       \<and> (artifacts \<noteq> [] \<and>
            get (match_time p) 150
              < fst (nearest start artifacts) / get (robot_speed p) 100 + get (pickup_time p) 3
          \<longrightarrow> compute_strategy start artifacts p =
                Inr \<lparr>visited = [], expected_score = 0, used_time = 0,
                     remaining_artifacts = length artifacts, params_r = p\<rparr>)"
proof -
  from assms(2) have ne: "get (robot_speed p) 100 \<noteq> 0" by simp
  with assms(1) have "\<exists>r. compute_strategy start artifacts p = Inr r"
    by (rule strategy_returns)
  moreover have free: "blocked p start artifacts = None"
    using ne by (simp add: moderate_input_blocked [OF assms(1)])
  have "compute_strategy start artifacts p =
                Inr \<lparr>visited = [], expected_score = 0, used_time = 0,
                     remaining_artifacts = length artifacts, params_r = p\<rparr>"
    if "artifacts \<noteq> []"
      and "get (match_time p) 150
              < fst (nearest start artifacts) / get (robot_speed p) 100 + get (pickup_time p) 3"
    using that(1) free that(2) by (rule strategy_stops_at_once)
  ultimately show ?thesis by blast
qed

theorem returns_for_positive_speed_witness:
  "moderate_input (0, 0) scenario_targets (scenario_params\<lparr>match_time := Some (- 1)\<rparr>)
   \<and> get (robot_speed (scenario_params\<lparr>match_time := Some (- 1)\<rparr>)) 100 > 0
   \<and> scenario_targets \<noteq> []
   \<and> get (match_time (scenario_params\<lparr>match_time := Some (- 1)\<rparr>)) 150
       < fst (nearest (0, 0) scenario_targets)
           / get (robot_speed (scenario_params\<lparr>match_time := Some (- 1)\<rparr>)) 100
         + get (pickup_time (scenario_params\<lparr>match_time := Some (- 1)\<rparr>)) 3
   \<and> compute_strategy (0, 0) scenario_targets (scenario_params\<lparr>match_time := Some (- 1)\<rparr>) =
       Inr \<lparr>visited = [], expected_score = 0, used_time = 0,
            remaining_artifacts = length scenario_targets,
            params_r = scenario_params\<lparr>match_time := Some (- 1)\<rparr>\<rparr>"
proof -
  let ?p = "scenario_params\<lparr>match_time := Some (- 1)\<rparr>"
  have m: "moderate_input (0, 0) scenario_targets ?p"
    by (simp add: moderate_input_def moderate_def scenario_targets_def scenario_params_def
          get_def)
  have s: "get (robot_speed ?p) 100 > 0"
    by (simp add: scenario_params_def get_def)
  have a: "scenario_targets \<noteq> []"
    by (simp add: scenario_targets_def)
  have "nearest (0, 0) scenario_targets = (10, (0, 10))"
    by (simp add: nearest_def scenario_targets_def euclid_vertical)
  then have t: "get (match_time ?p) 150
       < fst (nearest (0, 0) scenario_targets) / get (robot_speed ?p) 100 + get (pickup_time ?p) 3"
    by (simp add: scenario_params_def get_def)
  from returns_for_positive_speed [OF m s] m s a t
  show ?thesis by simp
qed

section \<open>The returned parameters\<close>

text \<open>
  C10. The returned dictionary has, beside the visits, the score, the used time and the
  count of artifacts left, the entry \<open>params\<close>, and its value is the parameter dictionary
  that the caller passed, unchanged.
\<close>

theorem params_returned:
  "compute_strategy start artifacts p = Inr r \<Longrightarrow> params_r r = p"
  by (rule strategy_InrD(5))

theorem params_returned_witness:
  "compute_strategy (0, 0) scenario_targets scenario_params = Inr scenario_plan
   \<and> params_r scenario_plan = scenario_params"
  using params_returned [OF scenario_run] scenario_run by simp

end
